theory Spec2Isabelle
  imports Complex_Main "HOL-Library.AList" "HOL-Library.Multiset"
begin

section \<open>De Bruijn graph assembly: the embedding of debruijn.py\<close>

text \<open>
  Python values are modelled as follows. A \<open>str\<close> is a \<open>string\<close>; a node of the graph is
  the string that names it. The k-mer table is a Python \<open>dict\<close>, which keeps its keys in
  insertion order: an association list with distinct keys, updated in place
  (\<open>AList.update\<close>) and read with \<open>map_of\<close>. Every exception the code can raise is a
  constructor of \<open>error\<close>, and a function that can raise returns \<open>error + 'a\<close>.
\<close>

datatype error =
    ZeroDivisionError
  | IndexError
  | TypeError
  | StatisticsError
  | NodeNotFound
  | NetworkXError
  | NetworkXPointlessConcept
  | ValueError
  | RecursionError

type_synonym node = string

type_synonym kmer_dict = "(string \<times> nat) list"

subsection \<open>Slices\<close>

text \<open>
  \<open>s[a:b]\<close> for integer bounds: a negative bound counts from the end, and both bounds are
  then clamped to \<open>0 .. len(s)\<close>; an empty range gives the empty string.
\<close>

definition slice_bound :: "int \<Rightarrow> int \<Rightarrow> int" where
  "slice_bound n i = (if i < 0 then max 0 (i + n) else min i n)"

definition py_slice :: "'a list \<Rightarrow> int \<Rightarrow> int \<Rightarrow> 'a list" where
  "py_slice s a b =
     (let n = int (length s); lo = slice_bound n a; hi = slice_bound n b
      in take (nat (hi - lo)) (drop (nat lo) s))"

subsection \<open>cut_kmer and build_kmer_dict\<close>

text \<open>
  \<open>cut_kmer\<close> is a generator: \<open>k_over = kmer_size + (len(read) % kmer_size)\<close>, then one
  slice \<open>read[i:i+kmer_size]\<close> for every \<open>i\<close> of \<open>range(0, k_over+1)\<close>. The modulo raises
  ZeroDivisionError for \<open>kmer_size = 0\<close>; Python's \<open>%\<close> takes the sign of the divisor, as
  \<open>mod\<close> on \<open>int\<close> does. \<open>cut_from read kmer_size i n\<close> is the loop with \<open>n\<close> iterations
  left, standing at index \<open>i\<close>.
\<close>

fun cut_from :: "string \<Rightarrow> int \<Rightarrow> nat \<Rightarrow> nat \<Rightarrow> string list" where
  "cut_from read kmer_size i 0 = []"
| "cut_from read kmer_size i (Suc n) =
     py_slice read (int i) (int i + kmer_size) # cut_from read kmer_size (Suc i) n"

definition cut_kmer :: "string \<Rightarrow> int \<Rightarrow> error + string list" where
  "cut_kmer read kmer_size =
     (if kmer_size = 0 then Inl ZeroDivisionError
      else let k_over = kmer_size + (int (length read) mod kmer_size)
           in Inr (cut_from read kmer_size 0 (nat (k_over + 1))))"

text \<open>
  \<open>build_kmer_dict\<close> reads the file through \<open>read_fastq\<close>, which is input framing: the
  file is represented by the list of read sequences that \<open>read_fastq\<close> yields from it.
  \<open>count_kmers\<close> is the inner loop over the k-mers of one read, \<open>count_reads\<close> the outer
  loop over the reads.
\<close>

fun count_kmers :: "string list \<Rightarrow> kmer_dict \<Rightarrow> kmer_dict" where
  "count_kmers [] kmer_dict = kmer_dict"
| "count_kmers (kmer # kmers) kmer_dict =
     count_kmers kmers
       (case map_of kmer_dict kmer of
          Some c \<Rightarrow> AList.update kmer (c + 1) kmer_dict
        | None \<Rightarrow> AList.update kmer 1 kmer_dict)"

fun count_reads :: "string list \<Rightarrow> int \<Rightarrow> kmer_dict \<Rightarrow> error + kmer_dict" where
  "count_reads [] kmer_size kmer_dict = Inr kmer_dict"
| "count_reads (seq # reads) kmer_size kmer_dict =
     (case cut_kmer seq kmer_size of
        Inl e \<Rightarrow> Inl e
      | Inr kmers \<Rightarrow> count_reads reads kmer_size (count_kmers kmers kmer_dict))"

definition build_kmer_dict :: "string list \<Rightarrow> int \<Rightarrow> error + kmer_dict" where
  "build_kmer_dict reads kmer_size = count_reads reads kmer_size []"

subsection \<open>The graph\<close>

text \<open>
  A networkx \<open>DiGraph\<close> keeps its nodes, and for each node its successors and its
  predecessors, in insertion order. The model keeps the node list and one list of weighted
  edges, both in insertion order; the successors and predecessors of a node are read off
  the edge list, in that order. Every edge carries a \<open>weight\<close>.

  \<open>add_edge(u, v, weight=w)\<close> adds \<open>u\<close>, then \<open>v\<close>, to the nodes when absent, and sets the
  weight of the edge \<open>(u, v)\<close>: a new edge goes last, an existing one keeps its place and
  has its weight replaced. \<open>remove_nodes_from\<close> removes each listed node with the edges at
  it, and passes over a node that is not in the graph.
\<close>

record graph =
  nodes :: "node list"
  edges :: "((node \<times> node) \<times> nat) list"

definition empty_graph :: graph where
  "empty_graph = \<lparr>nodes = [], edges = []\<rparr>"

definition add_node :: "node \<Rightarrow> graph \<Rightarrow> graph" where
  "add_node n g = (if n \<in> set (nodes g) then g else g\<lparr>nodes := nodes g @ [n]\<rparr>)"

definition add_edge :: "node \<Rightarrow> node \<Rightarrow> nat \<Rightarrow> graph \<Rightarrow> graph" where
  "add_edge u v w g =
     (let g' = add_node v (add_node u g)
      in g'\<lparr>edges := AList.update (u, v) w (edges g')\<rparr>)"

definition remove_node :: "node \<Rightarrow> graph \<Rightarrow> graph" where
  "remove_node n g =
     g\<lparr>nodes := filter (\<lambda>m. m \<noteq> n) (nodes g),
       edges := filter (\<lambda>e. fst (fst e) \<noteq> n \<and> snd (fst e) \<noteq> n) (edges g)\<rparr>"

fun remove_nodes_from :: "node list \<Rightarrow> graph \<Rightarrow> graph" where
  "remove_nodes_from [] g = g"
| "remove_nodes_from (n # ns) g = remove_nodes_from ns (remove_node n g)"

definition successors :: "graph \<Rightarrow> node \<Rightarrow> node list" where
  "successors g n = map (snd \<circ> fst) (filter (\<lambda>e. fst (fst e) = n) (edges g))"

definition predecessors :: "graph \<Rightarrow> node \<Rightarrow> node list" where
  "predecessors g n = map (fst \<circ> fst) (filter (\<lambda>e. snd (fst e) = n) (edges g))"

subsection \<open>build_graph\<close>

text \<open>
  One \<open>add_edge(seq[:-1], seq[1:], weight=w)\<close> for every item of the table, in the
  table's order.
\<close>

fun build_graph_loop :: "kmer_dict \<Rightarrow> graph \<Rightarrow> graph" where
  "build_graph_loop [] g = g"
| "build_graph_loop ((seq, w) # items) g =
     build_graph_loop items (add_edge (py_slice seq 0 (-1)) (py_slice seq 1 (int (length seq))) w g)"

definition build_graph :: "kmer_dict \<Rightarrow> graph" where
  "build_graph kmer_dict = build_graph_loop kmer_dict empty_graph"

subsection \<open>remove_paths\<close>

text \<open>
  For every path of the list, one \<open>remove_nodes_from\<close>: of the whole path when both flags
  are set, of \<open>path[:-1]\<close> when only \<open>delete_entry_node\<close> is, of \<open>path[1:]\<close> when only
  \<open>delete_sink_node\<close> is, of \<open>path[1:-1]\<close> otherwise.
\<close>

fun remove_paths :: "graph \<Rightarrow> node list list \<Rightarrow> bool \<Rightarrow> bool \<Rightarrow> graph" where
  "remove_paths graph [] delete_entry_node delete_sink_node = graph"
| "remove_paths graph (path # path_list) delete_entry_node delete_sink_node =
     remove_paths
       (if delete_entry_node \<and> delete_sink_node then remove_nodes_from path graph
        else if delete_entry_node then remove_nodes_from (py_slice path 0 (-1)) graph
        else if delete_sink_node then remove_nodes_from (py_slice path 1 (int (length path))) graph
        else remove_nodes_from (py_slice path 1 (-1)) graph)
       path_list delete_entry_node delete_sink_node"

subsection \<open>Library functions used by the selector\<close>

text \<open>
  \<open>statistics.mean\<close> and \<open>statistics.stdev\<close> compute with exact fractions and raise
  StatisticsError on fewer than one, respectively two, data points; the sample standard
  deviation is the square root of the sum of squared deviations from the mean over
  \<open>n - 1\<close>. Numbers are modelled as reals, which is what the float computation gives on
  the data of the theorems below (small integers, with an exact mean and exact squares). On
  floats at the ends of the range the two differ, and the model does not cover them:
  \<open>statistics.stdev\<close> raises OverflowError where a square exceeds the largest float, and
  returns 0.0 where the variance is below the smallest one. \<open>numpy.argmax\<close> returns the index of the first occurrence of the maximum, and
  raises ValueError on an empty array; \<open>argmax_from\<close> is its scan, carrying the best value
  and its index. \<open>list.pop(i)\<close> for \<open>i \<ge> 0\<close> removes and returns the element at index \<open>i\<close>
  and raises IndexError when \<open>i\<close> is not below the length. \<open>random.randint(a, b)\<close> returns an
  integer of the closed range from \<open>a\<close> to \<open>b\<close>; the argument \<open>r\<close> stands for the state of the
  generator, and every integer of the range is the result for some \<open>r\<close>.
\<close>

definition mean :: "real list \<Rightarrow> error + real" where
  "mean data =
     (if data = [] then Inl StatisticsError else Inr (sum_list data / real (length data)))"

definition stdev :: "real list \<Rightarrow> error + real" where
  "stdev data =
     (if length data < 2 then Inl StatisticsError
      else let m = sum_list data / real (length data)
           in Inr (sqrt (sum_list (map (\<lambda>x. (x - m)\<^sup>2) data) / real (length data - 1))))"

fun argmax_from :: "real list \<Rightarrow> nat \<Rightarrow> real \<Rightarrow> nat \<Rightarrow> nat" where
  "argmax_from [] i best best_i = best_i"
| "argmax_from (x # xs) i best best_i =
     (if best < x then argmax_from xs (Suc i) x i else argmax_from xs (Suc i) best best_i)"

definition argmax :: "real list \<Rightarrow> error + nat" where
  "argmax xs = (case xs of [] \<Rightarrow> Inl ValueError | x # rest \<Rightarrow> Inr (argmax_from rest 1 x 0))"

definition pop :: "'a list \<Rightarrow> nat \<Rightarrow> error + ('a \<times> 'a list)" where
  "pop xs i =
     (if i < length xs then Inr (xs ! i, take i xs @ drop (Suc i) xs) else Inl IndexError)"

definition randint :: "nat \<Rightarrow> nat \<Rightarrow> nat \<Rightarrow> nat" where
  "randint a b r = a + r mod (b - a + 1)"

subsection \<open>select_best_path\<close>

text \<open>
  The function mutates \<open>path_list\<close> (the \<open>pop\<close>) and the graph, and returns the graph: the
  model returns the graph together with the list as the call leaves it. Both standard
  deviations are guarded by \<open>len(weight_avg_list) > 1\<close>, as in the source.
\<close>

definition select_best_path ::
  "graph \<Rightarrow> node list list \<Rightarrow> nat list \<Rightarrow> real list \<Rightarrow> bool \<Rightarrow> bool \<Rightarrow> nat
     \<Rightarrow> error + (graph \<times> node list list)" where
  "select_best_path graph path_list path_length weight_avg_list
       delete_entry_node delete_sink_node r =
     (case (if length weight_avg_list > 1 then stdev weight_avg_list else Inr 0) of
        Inl e \<Rightarrow> Inl e
      | Inr stdev_weight \<Rightarrow>
     (case (if length weight_avg_list > 1 then stdev (map real path_length) else Inr 0) of
        Inl e \<Rightarrow> Inl e
      | Inr stdev_length \<Rightarrow>
     (case (if stdev_weight \<noteq> 0 then argmax weight_avg_list
            else if stdev_length \<noteq> 0 then argmax (map real path_length)
            else Inr (randint 0 (length path_list) r)) of
        Inl e \<Rightarrow> Inl e
      | Inr index \<Rightarrow>
     (case pop path_list index of
        Inl e \<Rightarrow> Inl e
      | Inr (winner, losers) \<Rightarrow>
          Inr (remove_paths graph losers delete_entry_node delete_sink_node, losers)))))"

subsection \<open>path_average_weight\<close>

text \<open>
  \<open>graph.subgraph(path).edges(data=True)\<close> lists, for every node of the graph that is in
  \<open>path\<close>, its outgoing edges whose head is in \<open>path\<close> too; a node of \<open>path\<close> that is not
  in the graph is passed over. The model takes the nodes in the graph's order; the mean
  does not depend on the order of the edges.
\<close>

definition subgraph_edges :: "graph \<Rightarrow> node list \<Rightarrow> ((node \<times> node) \<times> nat) list" where
  "subgraph_edges g path =
     concat (map (\<lambda>n. filter (\<lambda>e. fst (fst e) = n \<and> snd (fst e) \<in> set path) (edges g))
                 (filter (\<lambda>n. n \<in> set path) (nodes g)))"

definition path_average_weight :: "graph \<Rightarrow> node list \<Rightarrow> error + real" where
  "path_average_weight graph path =
     mean (map (\<lambda>e. real (snd e)) (subgraph_edges graph path))"

subsection \<open>solve_out_tips\<close>

text \<open>
  The body is \<open>pass\<close>: the call returns \<open>None\<close>, raises nothing and leaves the graph as it
  is.
\<close>

definition solve_out_tips :: "graph \<Rightarrow> node list \<Rightarrow> error + graph option" where
  "solve_out_tips graph ending_nodes = Inr None"

subsection \<open>The invariant of the graph\<close>

text \<open>
  What a \<open>DiGraph\<close> keeps by construction: a node is in the graph once, an edge is in the
  graph once, and both ends of every edge are nodes of the graph.
\<close>

definition wf_graph :: "graph \<Rightarrow> bool" where
  "wf_graph g \<longleftrightarrow>
     distinct (nodes g) \<and> distinct (map fst (edges g))
     \<and> list_all (\<lambda>e. fst (fst e) \<in> set (nodes g) \<and> snd (fst e) \<in> set (nodes g)) (edges g)"

subsection \<open>The graph library: all_simple_paths\<close>

text \<open>
  \<open>all_simple_paths(G, source, target)\<close> of networkx raises NodeNotFound when \<open>source\<close> is
  not a node. The targets are \<open>{target}\<close> when \<open>target\<close> is a node, and otherwise the
  elements of \<open>target\<close>, for a string its characters. The paths are enumerated depth first,
  the successors of a node in the order of its adjacency, with \<open>len(G) - 1\<close> as the bound
  on the number of edges: a child that is on the current path is passed over; a child that is
  a target yields the path extended by it; the search goes on below a child when the path is
  shorter than the bound and some target is neither on the path nor the child. The search
  starts from the empty path with \<open>source\<close> as the only child, so that \<open>source\<close> alone is a
  path when it is a target. \<open>all_paths_dfs g targets cutoff path children\<close> is the search
  standing on \<open>path\<close> with \<open>children\<close> left to visit.
\<close>

function all_paths_dfs :: "graph \<Rightarrow> node list \<Rightarrow> nat \<Rightarrow> node list \<Rightarrow> node list \<Rightarrow> node list list" where
  "all_paths_dfs g targets cutoff path [] = []"
| "all_paths_dfs g targets cutoff path (child # children) =
     (if child \<in> set path then all_paths_dfs g targets cutoff path children
      else (if child \<in> set targets then [path @ [child]] else [])
           @ (if length path < cutoff \<and> filter (\<lambda>t. t \<notin> set path \<and> t \<noteq> child) targets \<noteq> []
              then all_paths_dfs g targets cutoff (path @ [child]) (successors g child)
              else [])
           @ all_paths_dfs g targets cutoff path children)"
  by pat_completeness auto

termination all_paths_dfs
  by (relation "measures [\<lambda>(g, targets, cutoff, path, children). cutoff - length path,
                          \<lambda>(g, targets, cutoff, path, children). length children]")
     auto

definition all_simple_paths :: "graph \<Rightarrow> node \<Rightarrow> node \<Rightarrow> error + node list list" where
  "all_simple_paths g source target =
     (if source \<notin> set (nodes g) then Inl NodeNotFound
      else let targets = (if target \<in> set (nodes g) then [target]
                          else remdups (map (\<lambda>c. [c]) target))
           in Inr (all_paths_dfs g targets (length (nodes g) - 1) [] [source]))"

subsection \<open>The graph library: lowest_common_ancestor\<close>

text \<open>
  \<open>lowest_common_ancestor(G, node1, node2)\<close> raises NetworkXError when the graph has a
  directed cycle, NetworkXPointlessConcept on the graph without nodes and NodeNotFound when
  one of the two nodes is not in the graph. It takes the nodes from which \<open>node1\<close> is
  reached, with \<open>node1\<close> itself, and those of \<open>node2\<close>; with no common one the result is
  \<open>None\<close>. Otherwise it starts from the first element of the set of the common ones and, as
  long as the current node has a successor among them, moves to the first such successor.
  The first element of a Python set depends on the hashes of its members: the argument
  \<open>first\<close> gives, for the list of the common ancestors, the position of the one the set
  yields first. \<open>ancestors_iter n g acc\<close> adds \<open>n\<close> times the predecessors of the nodes
  collected so far; \<open>ancestors g v\<close> is \<open>v\<close> with the nodes that reach it. A graph is acyclic
  when no node reaches one of its own predecessors.
\<close>

fun ancestors_iter :: "nat \<Rightarrow> graph \<Rightarrow> node list \<Rightarrow> node list" where
  "ancestors_iter 0 g acc = acc"
| "ancestors_iter (Suc n) g acc =
     ancestors_iter n g (remdups (acc @ concat (map (predecessors g) acc)))"

definition ancestors :: "graph \<Rightarrow> node \<Rightarrow> node list" where
  "ancestors g v = ancestors_iter (length (nodes g)) g [v]"

definition is_directed_acyclic_graph :: "graph \<Rightarrow> bool" where
  "is_directed_acyclic_graph g =
     list_all (\<lambda>v. v \<notin> set (ancestors_iter (length (nodes g)) g (predecessors g v))) (nodes g)"

fun lower_ancestor :: "nat \<Rightarrow> graph \<Rightarrow> node list \<Rightarrow> node \<Rightarrow> node" where
  "lower_ancestor 0 g common a = a"
| "lower_ancestor (Suc n) g common a =
     (case filter (\<lambda>s. s \<in> set common) (successors g a) of
        [] \<Rightarrow> a
      | s # rest \<Rightarrow> lower_ancestor n g common s)"

definition lowest_common_ancestor ::
  "graph \<Rightarrow> node \<Rightarrow> node \<Rightarrow> (node list \<Rightarrow> nat) \<Rightarrow> error + node option" where
  "lowest_common_ancestor g node1 node2 first =
     (if \<not> is_directed_acyclic_graph g then Inl NetworkXError
      else if nodes g = [] then Inl NetworkXPointlessConcept
      else if node1 \<notin> set (nodes g) then Inl NodeNotFound
      else if node2 \<notin> set (nodes g) then Inl NodeNotFound
      else let common = filter (\<lambda>a. a \<in> set (ancestors g node2)) (ancestors g node1)
           in if common = [] then Inr None
              else Inr (Some (lower_ancestor (length (nodes g)) g common
                                (common ! (first common mod length common)))))"

subsection \<open>solve_bubble and simplify_bubbles\<close>

text \<open>
  \<open>solve_bubble\<close> collects the simple paths from the ancestor to the descendant with their
  lengths and average weights and passes them to \<open>select_best_path\<close> with both flags at
  their default, \<open>False\<close>; it returns the graph that \<open>select_best_path\<close> returns.

  \<open>simplify_bubbles\<close> scans every node with more than one predecessor and, for it, every
  pair of predecessors \<open>(predecessors[i], predecessors[j])\<close> with \<open>i < j\<close>. Each call of
  \<open>lowest_common_ancestor\<close> assigns \<open>ancestor_node\<close>; a result other than \<open>None\<close> sets
  \<open>bubble\<close> and leaves the loop over \<open>j\<close> only, so the scan goes on with the next \<open>i\<close> and
  the next node. The state of the scan is the pair of \<open>bubble\<close> and \<open>ancestor_node\<close>. After
  the scan, \<open>node\<close> is the last node of the graph. When \<open>bubble\<close> is set, the function calls
  itself on \<open>solve_bubble(graph, ancestor_node, node)\<close>; an \<open>ancestor_node\<close> that is \<open>None\<close>
  is not a node, and \<open>all_simple_paths\<close> raises NodeNotFound. The interpreter bounds the
  depth of the recursion: \<open>limit\<close> is the number of nested calls it allows, and the call
  that exceeds it raises RecursionError. \<open>draws i\<close> is the result of \<open>randint\<close> in the
  \<open>i\<close>-th nested call, should that call draw.
\<close>

fun path_weights :: "graph \<Rightarrow> node list list \<Rightarrow> error + real list" where
  "path_weights g [] = Inr []"
| "path_weights g (path # paths) =
     (case path_average_weight g path of
        Inl e \<Rightarrow> Inl e
      | Inr w \<Rightarrow> (case path_weights g paths of Inl e \<Rightarrow> Inl e | Inr ws \<Rightarrow> Inr (w # ws)))"

definition solve_bubble :: "graph \<Rightarrow> node \<Rightarrow> node \<Rightarrow> nat \<Rightarrow> error + graph" where
  "solve_bubble graph ancestor_node descendant_node r =
     (case all_simple_paths graph ancestor_node descendant_node of
        Inl e \<Rightarrow> Inl e
      | Inr path_list \<Rightarrow>
     (case path_weights graph path_list of
        Inl e \<Rightarrow> Inl e
      | Inr weight_avg_list \<Rightarrow>
     (case select_best_path graph path_list (map length path_list) weight_avg_list
             False False r of
        Inl e \<Rightarrow> Inl e
      | Inr (graph', losers) \<Rightarrow> Inr graph')))"

fun scan_j ::
  "graph \<Rightarrow> (node list \<Rightarrow> nat) \<Rightarrow> node \<Rightarrow> node list \<Rightarrow> bool \<times> node option
     \<Rightarrow> error + (bool \<times> node option)" where
  "scan_j g first p [] st = Inr st"
| "scan_j g first p (q # qs) st =
     (case lowest_common_ancestor g p q first of
        Inl e \<Rightarrow> Inl e
      | Inr None \<Rightarrow> scan_j g first p qs (fst st, None)
      | Inr (Some a) \<Rightarrow> Inr (True, Some a))"

fun scan_i ::
  "graph \<Rightarrow> (node list \<Rightarrow> nat) \<Rightarrow> node list \<Rightarrow> bool \<times> node option
     \<Rightarrow> error + (bool \<times> node option)" where
  "scan_i g first [] st = Inr st"
| "scan_i g first (p # ps) st =
     (case scan_j g first p ps st of Inl e \<Rightarrow> Inl e | Inr st' \<Rightarrow> scan_i g first ps st')"

fun scan_nodes ::
  "graph \<Rightarrow> (node list \<Rightarrow> nat) \<Rightarrow> node list \<Rightarrow> bool \<times> node option
     \<Rightarrow> error + (bool \<times> node option)" where
  "scan_nodes g first [] st = Inr st"
| "scan_nodes g first (node # ns) st =
     (if length (predecessors g node) > 1
      then (case scan_i g first (predecessors g node) st of
              Inl e \<Rightarrow> Inl e
            | Inr st' \<Rightarrow> scan_nodes g first ns st')
      else scan_nodes g first ns st)"

fun simplify_bubbles ::
  "nat \<Rightarrow> graph \<Rightarrow> (node list \<Rightarrow> nat) \<Rightarrow> (nat \<Rightarrow> nat) \<Rightarrow> error + graph" where
  "simplify_bubbles 0 graph first draws = Inl RecursionError"
| "simplify_bubbles (Suc limit) graph first draws =
     (case scan_nodes graph first (nodes graph) (False, None) of
        Inl e \<Rightarrow> Inl e
      | Inr (bubble, ancestor_node) \<Rightarrow>
          if bubble
          then (case ancestor_node of
                  None \<Rightarrow> Inl NodeNotFound
                | Some a \<Rightarrow>
                    (case solve_bubble graph a (last (nodes graph)) (draws 0) of
                       Inl e \<Rightarrow> Inl e
                     | Inr graph' \<Rightarrow> simplify_bubbles limit graph' first (\<lambda>i. draws (Suc i))))
          else Inr graph)"

subsection \<open>get_starting_nodes and solve_entry_tips\<close>

text \<open>
  \<open>get_starting_nodes\<close> lists the nodes without predecessor, in the graph's order.
\<close>

definition get_starting_nodes :: "graph \<Rightarrow> node list" where
  "get_starting_nodes graph = filter (\<lambda>node. predecessors graph node = []) (nodes graph)"

text \<open>
  \<open>solve_entry_tips\<close> visits the nodes in order. For a node, \<open>tip_predecessors\<close> is
  \<open>list(set(predecessors).intersection(starting_nodes))\<close>: the predecessors that are
  starting nodes, in the order in which the set yields them, which \<open>set_order\<close> stands for.
  With more than one of them, \<open>paths\<close> holds for each the list of all its simple paths to
  the node (\<open>tip_paths\<close>); the first path of each list, \<open>path[0]\<close>, is scored
  (\<open>score_paths\<close>; IndexError on an empty list), and \<open>select_best_path\<close> is called without
  the two flags, which are \<open>False\<close> by default. Its result, a graph, is named \<open>best_path\<close>
  and given to \<open>paths.pop\<close> as the index: \<open>list.pop\<close> raises TypeError for an index that is
  not an integer, so the call \<open>remove_paths(graph, paths, delete_entry_node=True,
  delete_sink_node=False)\<close> that follows is never reached. The graph is mutated in place:
  an exception is returned together with the graph as the call leaves it.
\<close>

fun tip_paths :: "graph \<Rightarrow> node list \<Rightarrow> node \<Rightarrow> error + node list list list" where
  "tip_paths graph [] node = Inr []"
| "tip_paths graph (tip_pred # tips) node =
     (case all_simple_paths graph tip_pred node of
        Inl e \<Rightarrow> Inl e
      | Inr ps \<Rightarrow>
          (case tip_paths graph tips node of Inl e \<Rightarrow> Inl e | Inr pss \<Rightarrow> Inr (ps # pss)))"

fun score_paths :: "graph \<Rightarrow> node list list list \<Rightarrow> error + (node list list \<times> real list)" where
  "score_paths graph [] = Inr ([], [])"
| "score_paths graph (path # paths) =
     (case path of
        [] \<Rightarrow> Inl IndexError
      | p0 # rest \<Rightarrow>
          (case path_average_weight graph p0 of
             Inl e \<Rightarrow> Inl e
           | Inr avg_weight \<Rightarrow>
               (case score_paths graph paths of
                  Inl e \<Rightarrow> Inl e
                | Inr (path_list, weight_avg_list) \<Rightarrow>
                    Inr (p0 # path_list, avg_weight # weight_avg_list))))"

fun entry_tips_loop ::
  "(node list \<Rightarrow> node list) \<Rightarrow> graph \<Rightarrow> node list \<Rightarrow> node list \<Rightarrow> nat
     \<Rightarrow> (error \<times> graph) + graph" where
  "entry_tips_loop set_order graph [] starting_nodes r = Inr graph"
| "entry_tips_loop set_order graph (node # ns) starting_nodes r =
     (let tip_predecessors =
            set_order (filter (\<lambda>p. p \<in> set starting_nodes) (predecessors graph node))
      in if length tip_predecessors > 1
         then (case tip_paths graph tip_predecessors node of
                 Inl e \<Rightarrow> Inl (e, graph)
               | Inr paths \<Rightarrow>
              (case score_paths graph paths of
                 Inl e \<Rightarrow> Inl (e, graph)
               | Inr (path_list, weight_avg_list) \<Rightarrow>
              (case select_best_path graph path_list (map length path_list) weight_avg_list
                      False False r of
                 Inl e \<Rightarrow> Inl (e, graph)
               | Inr (best_path, losers) \<Rightarrow> Inl (TypeError, best_path))))
         else entry_tips_loop set_order graph ns starting_nodes r)"

definition solve_entry_tips ::
  "(node list \<Rightarrow> node list) \<Rightarrow> graph \<Rightarrow> node list \<Rightarrow> nat \<Rightarrow> (error \<times> graph) + graph" where
  "solve_entry_tips set_order graph starting_nodes r =
     entry_tips_loop set_order graph (nodes graph) starting_nodes r"

section \<open>Properties\<close>

subsection \<open>The k-mer cutter and counter\<close>

lemma py_slice_window:
  assumes "0 < k"
  shows "py_slice s (int i) (int i + k) = take (nat k) (drop i s)"
proof (cases "i < length s")
  case False
  then show ?thesis
    by (simp add: py_slice_def slice_bound_def Let_def min_def)
next
  case True
  show ?thesis
  proof (cases "int i + k \<le> int (length s)")
    case True
    have "nat (int i + k) - i = nat k" using assms by linarith
    then show ?thesis using True \<open>i < length s\<close> assms
      by (simp add: py_slice_def slice_bound_def Let_def min_def nat_diff_distrib')
  next
    case False
    then have "length s - i \<le> nat k" by linarith
    then show ?thesis using False \<open>i < length s\<close> assms
      by (simp add: py_slice_def slice_bound_def Let_def min_def)
  qed
qed

lemma cut_from_map:
  "0 < k \<Longrightarrow> cut_from read k i n = map (\<lambda>j. take (nat k) (drop j read)) [i..<i + n]"
proof (induction n arbitrary: i)
  case 0 then show ?case by simp
next
  case (Suc n)
  then show ?case by (simp add: py_slice_window upt_rec[of i])
qed

lemma over_nat:
  assumes "0 < k"
  shows "nat (k + int L mod k + 1) = Suc (nat k + L mod nat k)"
proof -
  have "int L mod k = int (L mod nat k)"
    using assms zmod_int [of L "nat k"] by simp
  then show ?thesis using assms by simp
qed

lemma cut_kmer_eq:
  "0 < k \<Longrightarrow> cut_kmer read k =
     Inr (map (\<lambda>j. take (nat k) (drop j read)) [0..<Suc (nat k + length read mod nat k)])"
  using cut_from_map[of k read 0] by (simp add: cut_kmer_def Let_def over_nat)

lemma map_of_count_kmers:
  "map_of (count_kmers kmers d) s =
     (if count_list kmers s = 0 then map_of d s
      else Some (count_list kmers s + (case map_of d s of None \<Rightarrow> 0 | Some c \<Rightarrow> c)))"
  by (induction kmers arbitrary: d) (auto simp: update_conv split: option.splits)

lemma count_kmers_append:
  "count_kmers (xs @ ys) d = count_kmers ys (count_kmers xs d)"
  by (induction xs arbitrary: d) auto

lemma distinct_count_kmers:
  "distinct (map fst d) \<Longrightarrow> distinct (map fst (count_kmers kmers d))"
  by (induction kmers arbitrary: d) (auto simp: distinct_update split: option.splits)

lemma count_reads_eq:
  "0 < k \<Longrightarrow> count_reads reads k d =
     Inr (count_kmers (concat (map (\<lambda>read. map (\<lambda>j. take (nat k) (drop j read))
            [0..<Suc (nat k + length read mod nat k)]) reads)) d)"
  by (induction reads arbitrary: d) (simp_all add: cut_kmer_eq count_kmers_append del: upt_Suc)

text \<open>
  Claim C6. For every read of length \<open>L\<close> and every k-mer size \<open>k \<ge> 1\<close>, \<open>cut_kmer\<close> yields
  exactly \<open>over + 1\<close> strings, \<open>over = k + (L mod k)\<close>; the \<open>i\<close>-th one, for \<open>i\<close> from
  \<open>0\<close> to \<open>over\<close>, is the slice \<open>read[i:i+k]\<close>, that is the at most \<open>k\<close> characters of
  the read from position \<open>i\<close> on: a slice that runs past the end is shorter than \<open>k\<close>
  (its length is \<open>min k (L - i)\<close>), not dropped. \<open>build_kmer_dict\<close> returns a table that
  maps every string to the number of times the reads yield it, whatever its length, and
  has no entry for a string that is never yielded.
\<close>

theorem kmer_cutter_counts_all:
  "1 \<le> k \<Longrightarrow>
     (\<exists>kmers. cut_kmer read k = Inr kmers
        \<and> length kmers = (nat k + length read mod nat k) + 1
        \<and> (\<forall>i \<le> nat k + length read mod nat k.
              kmers ! i = py_slice read (int i) (int i + k)
            \<and> kmers ! i = take (nat k) (drop i read)
            \<and> length (kmers ! i) = min (nat k) (length read - i)))
   \<and> (\<exists>d. build_kmer_dict reads k = Inr d
        \<and> distinct (map fst d)
        \<and> (\<forall>s. map_of d s =
              (let c = count_list (concat (map (\<lambda>r. map (\<lambda>i. take (nat k) (drop i r))
                          [0..<(nat k + length r mod nat k) + 1]) reads)) s
               in if c = 0 then None else Some c)))"
proof (intro conjI impI)
  assume k: "1 \<le> k"
  then have k0: "0 < k" by simp
  let ?n = "nat k + length read mod nat k"
  let ?ks = "map (\<lambda>j. take (nat k) (drop j read)) [0..<Suc ?n]"
  have "cut_kmer read k = Inr ?ks" by (rule cut_kmer_eq [OF k0])
  moreover have "length ?ks = ?n + 1" by simp
  moreover have "\<forall>i \<le> ?n. ?ks ! i = py_slice read (int i) (int i + k)
       \<and> ?ks ! i = take (nat k) (drop i read)
       \<and> length (?ks ! i) = min (nat k) (length read - i)"
  proof (intro allI impI)
    fix i assume "i \<le> ?n"
    then have "?ks ! i = take (nat k) (drop i read)"
      by (simp add: nth_map_upt del: upt_Suc)
    then show "?ks ! i = py_slice read (int i) (int i + k)
       \<and> ?ks ! i = take (nat k) (drop i read)
       \<and> length (?ks ! i) = min (nat k) (length read - i)"
      by (simp add: py_slice_window [OF k0] min.commute)
  qed
  ultimately show "\<exists>kmers. cut_kmer read k = Inr kmers
        \<and> length kmers = (nat k + length read mod nat k) + 1
        \<and> (\<forall>i \<le> nat k + length read mod nat k.
              kmers ! i = py_slice read (int i) (int i + k)
            \<and> kmers ! i = take (nat k) (drop i read)
            \<and> length (kmers ! i) = min (nat k) (length read - i))"
    by blast
  let ?all = "concat (map (\<lambda>r. map (\<lambda>i. take (nat k) (drop i r))
                          [0..<(nat k + length r mod nat k) + 1]) reads)"
  have "build_kmer_dict reads k = Inr (count_kmers ?all [])"
    by (simp add: build_kmer_dict_def count_reads_eq [OF k0] del: upt_Suc)
  moreover have "distinct (map fst (count_kmers ?all []))"
    by (rule distinct_count_kmers) simp
  moreover have "\<forall>s. map_of (count_kmers ?all []) s =
      (let c = count_list ?all s in if c = 0 then None else Some c)"
    by (simp add: map_of_count_kmers Let_def del: upt_Suc)
  ultimately show "\<exists>d. build_kmer_dict reads k = Inr d
        \<and> distinct (map fst d)
        \<and> (\<forall>s. map_of d s =
              (let c = count_list ?all s in if c = 0 then None else Some c))"
    by blast
qed

theorem kmer_cutter_counts_all_witness:
  "(1::int) \<le> 3
   \<and> cut_kmer ''AATCG'' 3 = Inr [''AAT'', ''ATC'', ''TCG'', ''CG'', ''G'', []]
   \<and> (\<exists>d. build_kmer_dict [''AATCG'', ''ATCGA''] 3 = Inr d \<and> distinct (map fst d))"
proof -
  have h: "(1::int) \<le> 3" by simp
  have c: "cut_kmer ''AATCG'' 3 = Inr [''AAT'', ''ATC'', ''TCG'', ''CG'', ''G'', []]"
    by code_simp
  from kmer_cutter_counts_all [OF h, of "''AATCG''" "[''AATCG'', ''ATCGA'']"]
  have "\<exists>d. build_kmer_dict [''AATCG'', ''ATCGA''] 3 = Inr d \<and> distinct (map fst d)"
    by blast
  with h c show ?thesis by blast
qed

subsection \<open>The graph builder\<close>

lemma py_slice_butlast: "py_slice s 0 (-1) = butlast s"
  by (cases "s = []") (auto simp: py_slice_def slice_bound_def Let_def butlast_conv_take nat_diff_distrib')

lemma py_slice_tl: "py_slice s 1 (int (length s)) = tl s"
  by (cases s) (auto simp: py_slice_def slice_bound_def Let_def drop_Suc)

lemma nodes_add_edge: "set (nodes (add_edge u v w g)) = insert u (insert v (set (nodes g)))"
  by (auto simp: add_edge_def add_node_def Let_def)

lemma edges_add_edge: "edges (add_edge u v w g) = AList.update (u, v) w (edges g)"
  by (auto simp: add_edge_def add_node_def Let_def)

lemma nodes_build_graph_loop:
  "set (nodes (build_graph_loop items g)) =
     set (nodes g) \<union> (\<Union>seq \<in> fst ` set items. {butlast seq, tl seq})"
  by (induction items g rule: build_graph_loop.induct)
     (auto simp: nodes_add_edge py_slice_butlast py_slice_tl)

lemma map_of_edges_build_graph_loop:
  "map_of (edges (build_graph_loop items g)) e =
     (if filter (\<lambda>item. (butlast (fst item), tl (fst item)) = e) items = []
      then map_of (edges g) e
      else Some (snd (last (filter (\<lambda>item. (butlast (fst item), tl (fst item)) = e) items))))"
proof (induction items g rule: build_graph_loop.induct)
  case (1 g)
  then show ?case by simp
next
  case (2 seq w items g)
  have step: "map_of (edges (add_edge (butlast seq) (tl seq) w g)) e =
      (if (butlast seq, tl seq) = e then Some w else map_of (edges g) e)"
    by (simp add: edges_add_edge update_conv)
  from 2 show ?case
    by (simp add: py_slice_butlast py_slice_tl step)
qed

lemma length_update_le: "length (AList.update k v al) \<le> Suc (length al)"
  by (induction al) auto

lemma length_edges_build_graph_loop:
  "length (edges (build_graph_loop items g)) \<le> length (edges g) + length items"
proof (induction items g rule: build_graph_loop.induct)
  case (1 g)
  then show ?case by simp
next
  case (2 seq w items g)
  have "length (edges (add_edge (py_slice seq 0 (-1)) (py_slice seq 1 (int (length seq))) w g))
          \<le> Suc (length (edges g))"
    by (simp add: edges_add_edge length_update_le)
  with 2 show ?case by simp
qed

lemma keys_edges_build_graph_loop:
  "fst ` set (edges (build_graph_loop items g)) =
     fst ` set (edges g) \<union> (\<lambda>seq. (butlast seq, tl seq)) ` fst ` set items"
  by (induction items g rule: build_graph_loop.induct)
     (auto simp: edges_add_edge py_slice_butlast py_slice_tl dom_update)

lemma distinct_edges_build_graph_loop:
  "distinct (map fst (edges g)) \<Longrightarrow> distinct (map fst (edges (build_graph_loop items g)))"
  by (induction items g rule: build_graph_loop.induct)
     (auto simp: edges_add_edge distinct_update)

lemma kmer_of_edge:
  "2 \<le> length s \<Longrightarrow> 2 \<le> length t \<Longrightarrow> butlast s = butlast t \<Longrightarrow> tl s = tl t \<Longrightarrow> s = t"
  by (metis One_nat_def Suc_1 Suc_le_length_iff append_butlast_last_id last_tl length_0_conv list.sel(3) not_less_eq_eq length_tl  list.size(3) diff_Suc_1 le_zero_eq nat.simps(3))

lemma last_filter_unique:
  assumes "x \<in> set xs" "P x" "\<And>y. y \<in> set xs \<Longrightarrow> P y \<Longrightarrow> y = x"
  shows "filter P xs \<noteq> [] \<and> last (filter P xs) = x"
proof -
  have "x \<in> set (filter P xs)" using assms(1,2) by simp
  then have ne: "filter P xs \<noteq> []" by (metis empty_iff list.set(1))
  then have "last (filter P xs) \<in> set (filter P xs)" by (rule last_in_set)
  then have "last (filter P xs) \<in> set xs" "P (last (filter P xs))" by simp_all
  then have "last (filter P xs) = x" by (rule assms(3))
  with ne show ?thesis by simp
qed

lemma build_graph_weight_long:
  assumes d: "distinct (map fst kmer_dict)" and m: "(seq, w) \<in> set kmer_dict" and l: "2 \<le> length seq"
  shows "map_of (edges (build_graph kmer_dict)) (butlast seq, tl seq) = Some w"
proof -
  let ?P = "\<lambda>item. (butlast (fst item), tl (fst item)) = (butlast seq, tl seq)"
  have uniq: "y = (seq, w)" if yin: "y \<in> set kmer_dict" and py: "?P y" for y
  proof -
    obtain t v where y: "y = (t, v)" by (cases y)
    from py y have b1: "butlast t = butlast seq" and b2: "tl t = tl seq" by simp_all
    have "length (butlast t) = length (butlast seq)" using b1 by simp
    with l have lt: "2 \<le> length t" by simp
    have ts: "t = seq" by (rule kmer_of_edge [OF lt l b1 b2])
    from yin y ts have "(seq, v) \<in> set kmer_dict" by simp
    with d m have "w = v" by (rule eq_key_imp_eq_value)
    with ts y show ?thesis by simp
  qed
  have pm: "?P (seq, w)" by simp
  have "filter ?P kmer_dict \<noteq> [] \<and> last (filter ?P kmer_dict) = (seq, w)"
    using m pm uniq by (rule last_filter_unique)
  then show ?thesis
    by (simp add: build_graph_def map_of_edges_build_graph_loop)
qed

lemma build_graph_weight_source:
  assumes "(e, w) \<in> set (edges (build_graph kmer_dict))"
  shows "\<exists>seq. (seq, w) \<in> set kmer_dict \<and> e = (butlast seq, tl seq)"
proof -
  let ?P = "\<lambda>item. (butlast (fst item), tl (fst item)) = e"
  let ?F = "filter ?P kmer_dict"
  have "distinct (map fst (edges (build_graph kmer_dict)))"
    by (simp add: build_graph_def distinct_edges_build_graph_loop empty_graph_def)
  with assms have mo: "map_of (edges (build_graph kmer_dict)) e = Some w" by simp
  have ne: "?F \<noteq> []"
  proof
    assume "?F = []"
    with mo show False
      by (simp add: build_graph_def map_of_edges_build_graph_loop empty_graph_def)
  qed
  with mo have w: "snd (last ?F) = w"
    by (simp add: build_graph_def map_of_edges_build_graph_loop)
  from ne have "last ?F \<in> set ?F" by (rule last_in_set)
  then have a: "last ?F \<in> set kmer_dict" and b: "?P (last ?F)" by simp_all
  obtain t v where tv: "last ?F = (t, v)" by (cases "last ?F")
  with a b w have "(t, w) \<in> set kmer_dict" "e = (butlast t, tl t)" by auto
  then show ?thesis by blast
qed

lemma short_kmer_edge: "(butlast s, tl s) = ([], []) \<longleftrightarrow> length s < 2"
proof (cases s)
  case Nil
  then show ?thesis by simp
next
  case (Cons c t)
  then show ?thesis by (cases t) simp_all
qed

lemma build_graph_weight_last:
  "map_of (edges (build_graph kmer_dict)) e =
     (if filter (\<lambda>item. (butlast (fst item), tl (fst item)) = e) kmer_dict = [] then None
      else Some (snd (last (filter (\<lambda>item. (butlast (fst item), tl (fst item)) = e) kmer_dict))))"
  by (simp add: build_graph_def map_of_edges_build_graph_loop empty_graph_def)

lemma build_graph_weight_short:
  assumes m: "(seq, w) \<in> set kmer_dict" and l: "length seq < 2"
  shows "map_of (edges (build_graph kmer_dict)) ([], []) =
           Some (snd (last (filter (\<lambda>item. length (fst item) < 2) kmer_dict)))"
proof -
  have f: "filter (\<lambda>item. (butlast (fst item), tl (fst item)) = ([], [])) kmer_dict =
           filter (\<lambda>item. length (fst item) < 2) kmer_dict"
    by (simp only: short_kmer_edge)
  from m l have "(seq, w) \<in> set (filter (\<lambda>item. length (fst item) < 2) kmer_dict)" by simp
  then have ne: "filter (\<lambda>item. length (fst item) < 2) kmer_dict \<noteq> []"
    by (cases "filter (\<lambda>item. length (fst item) < 2) kmer_dict") simp_all
  show ?thesis
    by (simp only: build_graph_weight_last [of kmer_dict "([], [])"] f ne if_False)
qed

text \<open>
  Claim C7, as amended. For every k-mer table (a dict: its keys are distinct),
  \<open>build_graph\<close> makes one \<open>add_edge\<close> per entry, from the entry's prefix \<open>seq[:-1]\<close> to
  its suffix \<open>seq[1:]\<close>: the graph has at most as many edges as the table has entries, no
  edge twice, and its edges are exactly the prefix-suffix pairs of the entries. For every
  entry of length at least 2 the weight of its edge is that entry's count. Every weight in
  the graph is the count of one entry that maps to the edge (never a sum of counts). The
  nodes are exactly the prefixes and suffixes of the entries. The weight of every edge is the
  count of the last entry, in the table's order, whose prefix and suffix are the ends of the
  edge. Every entry of length 0 or 1 maps to the one self-loop at the empty string, and the
  weight of that self-loop is the count of the last entry of length 0 or 1 in the table's
  order. So the claim as stated fails for \<open>k = 1\<close>, where every entry has length 1.
\<close>

theorem build_graph_edges_and_nodes:
  "distinct (map fst kmer_dict) \<Longrightarrow>
     length (edges (build_graph kmer_dict)) \<le> length kmer_dict
   \<and> distinct (map fst (edges (build_graph kmer_dict)))
   \<and> fst ` set (edges (build_graph kmer_dict)) =
       (\<lambda>seq. (py_slice seq 0 (-1), py_slice seq 1 (int (length seq)))) ` fst ` set kmer_dict
   \<and> (\<forall>seq w. (seq, w) \<in> set kmer_dict \<and> 2 \<le> length seq \<longrightarrow>
         map_of (edges (build_graph kmer_dict))
           (py_slice seq 0 (-1), py_slice seq 1 (int (length seq))) = Some w)
   \<and> (\<forall>e w. (e, w) \<in> set (edges (build_graph kmer_dict)) \<longrightarrow>
         (\<exists>seq. (seq, w) \<in> set kmer_dict
            \<and> e = (py_slice seq 0 (-1), py_slice seq 1 (int (length seq)))))
   \<and> set (nodes (build_graph kmer_dict)) =
       (\<Union>seq \<in> fst ` set kmer_dict. {py_slice seq 0 (-1), py_slice seq 1 (int (length seq))})
   \<and> (\<forall>e. map_of (edges (build_graph kmer_dict)) e =
         (if filter (\<lambda>item. (py_slice (fst item) 0 (-1),
                               py_slice (fst item) 1 (int (length (fst item)))) = e) kmer_dict = []
          then None
          else Some (snd (last (filter (\<lambda>item. (py_slice (fst item) 0 (-1),
                               py_slice (fst item) 1 (int (length (fst item)))) = e) kmer_dict)))))
   \<and> (\<forall>seq w. (seq, w) \<in> set kmer_dict \<and> length seq < 2 \<longrightarrow>
         (py_slice seq 0 (-1), py_slice seq 1 (int (length seq))) = ([], [])
         \<and> map_of (edges (build_graph kmer_dict)) ([], []) =
             Some (snd (last (filter (\<lambda>item. length (fst item) < 2) kmer_dict))))"
proof (intro conjI allI impI)
  assume d: "distinct (map fst kmer_dict)"
  show "length (edges (build_graph kmer_dict)) \<le> length kmer_dict"
    using length_edges_build_graph_loop [of kmer_dict empty_graph]
    by (simp add: build_graph_def empty_graph_def)
  show "distinct (map fst (edges (build_graph kmer_dict)))"
    by (simp add: build_graph_def distinct_edges_build_graph_loop empty_graph_def)
  show "fst ` set (edges (build_graph kmer_dict)) =
       (\<lambda>seq. (py_slice seq 0 (-1), py_slice seq 1 (int (length seq)))) ` fst ` set kmer_dict"
    by (simp add: build_graph_def keys_edges_build_graph_loop empty_graph_def
        py_slice_butlast py_slice_tl)
  show "set (nodes (build_graph kmer_dict)) =
       (\<Union>seq \<in> fst ` set kmer_dict. {py_slice seq 0 (-1), py_slice seq 1 (int (length seq))})"
    by (simp add: build_graph_def nodes_build_graph_loop empty_graph_def
        py_slice_butlast py_slice_tl)
next
  fix seq w
  assume d: "distinct (map fst kmer_dict)" and "(seq, w) \<in> set kmer_dict \<and> 2 \<le> length seq"
  then show "map_of (edges (build_graph kmer_dict))
           (py_slice seq 0 (-1), py_slice seq 1 (int (length seq))) = Some w"
    by (simp add: build_graph_weight_long py_slice_butlast py_slice_tl)
next
  fix e w
  assume "(e, w) \<in> set (edges (build_graph kmer_dict))"
  then show "\<exists>seq. (seq, w) \<in> set kmer_dict
            \<and> e = (py_slice seq 0 (-1), py_slice seq 1 (int (length seq)))"
    by (simp add: build_graph_weight_source py_slice_butlast py_slice_tl)
next
  fix e
  show "map_of (edges (build_graph kmer_dict)) e =
         (if filter (\<lambda>item. (py_slice (fst item) 0 (-1),
                               py_slice (fst item) 1 (int (length (fst item)))) = e) kmer_dict = []
          then None
          else Some (snd (last (filter (\<lambda>item. (py_slice (fst item) 0 (-1),
                               py_slice (fst item) 1 (int (length (fst item)))) = e) kmer_dict))))"
    unfolding py_slice_butlast py_slice_tl by (rule build_graph_weight_last)
next
  fix seq w
  assume a: "(seq, w) \<in> set kmer_dict \<and> length seq < 2"
  then have "(butlast seq, tl seq) = ([], [])" by (simp only: short_kmer_edge)
  then show "(py_slice seq 0 (-1), py_slice seq 1 (int (length seq))) = ([], [])"
    by (simp only: py_slice_butlast py_slice_tl)
  from a show "map_of (edges (build_graph kmer_dict)) ([], []) =
             Some (snd (last (filter (\<lambda>item. length (fst item) < 2) kmer_dict)))"
    by (blast intro: build_graph_weight_short)
qed

theorem build_graph_edges_and_nodes_witness:
  "distinct (map fst [(''AAT'', 1::nat), (''ATC'', 2), (''A'', 2), (''C'', 1)])
   \<and> map_of (edges (build_graph [(''AAT'', 1), (''ATC'', 2), (''A'', 2), (''C'', 1)]))
       (''AT'', ''TC'') = Some 2
   \<and> map_of (edges (build_graph [(''AAT'', 1), (''ATC'', 2), (''A'', 2), (''C'', 1)]))
       ([], []) = Some 1"
proof -
  let ?t = "[(''AAT'', 1::nat), (''ATC'', 2), (''A'', 2), (''C'', 1)]"
  have h: "distinct (map fst ?t)" by simp
  have s: "py_slice ''ATC'' 0 (-1) = ''AT''" "py_slice ''ATC'' 1 (int (length ''ATC'')) = ''TC''"
    by (simp_all add: py_slice_def slice_bound_def)
  note t = build_graph_edges_and_nodes [OF h]
  from t have "\<forall>seq w. (seq, w) \<in> set ?t \<and> 2 \<le> length seq \<longrightarrow>
         map_of (edges (build_graph ?t))
           (py_slice seq 0 (-1), py_slice seq 1 (int (length seq))) = Some w"
    by (elim conjE)
  from this [rule_format, of "''ATC''" 2] s
  have b: "map_of (edges (build_graph ?t)) (''AT'', ''TC'') = Some 2"
    by simp
  from t have "\<forall>seq w. (seq, w) \<in> set ?t \<and> length seq < 2 \<longrightarrow>
         (py_slice seq 0 (-1), py_slice seq 1 (int (length seq))) = ([], [])
         \<and> map_of (edges (build_graph ?t)) ([], []) =
             Some (snd (last (filter (\<lambda>item. length (fst item) < 2) ?t)))"
    by (elim conjE)
  from this [rule_format, of "''A''" 2]
  have c: "map_of (edges (build_graph ?t)) ([], []) = Some 1"
    by simp
  from h b c show ?thesis by blast
qed

text \<open>
  For \<open>k = 1\<close> the reads \<open>AC\<close> and \<open>AG\<close> give the table \<open>A: 2, C: 1, G: 1\<close>, every entry
  of length \<open>k\<close>. The three entries map to one edge, the self-loop at the empty string, and
  its weight ends as 1, the count of \<open>G\<close>: the edge of the entry \<open>A\<close> does not carry the
  count of \<open>A\<close>, which is 2.
\<close>

theorem build_graph_weight_counterexample:
  "build_kmer_dict [''AC'', ''AG''] 1 = Inr [(''A'', 2), (''C'', 1), (''G'', 1)]
   \<and> edges (build_graph [(''A'', 2), (''C'', 1), (''G'', 1)]) = [(([], []), 1)]
   \<and> map_of (edges (build_graph [(''A'', 2), (''C'', 1), (''G'', 1)]))
       (py_slice ''A'' 0 (-1), py_slice ''A'' 1 (int (length ''A''))) \<noteq> Some 2"
  by code_simp

subsection \<open>Short reads and the empty k-mer\<close>

lemma short_read_over:
  assumes "0 < (K::nat)" "L < 2 * K"
  shows "L \<le> K + L mod K"
proof -
  have "L div K < 2" using assms by (simp add: less_mult_imp_div_less mult.commute)
  then have "L div K * K \<le> K" by (cases "L div K") auto
  moreover have "L = L div K * K + L mod K" by simp
  ultimately show ?thesis by linarith
qed

lemma keys_edges_build_graph:
  "fst ` set (edges (build_graph d)) = (\<lambda>seq. (butlast seq, tl seq)) ` fst ` set d"
  by (simp add: build_graph_def keys_edges_build_graph_loop empty_graph_def)

lemma nodes_build_graph:
  "set (nodes (build_graph d)) = (\<Union>seq \<in> fst ` set d. {butlast seq, tl seq})"
  by (simp add: build_graph_def nodes_build_graph_loop empty_graph_def)

lemma build_graph_empty_kmer:
  assumes "([], c) \<in> set d"
  shows "(\<exists>w. (([], []), w) \<in> set (edges (build_graph d))) \<and> [] \<in> set (nodes (build_graph d))"
proof -
  from assms have m: "[] \<in> fst ` set d" by (metis fst_conv image_eqI)
  then have "(butlast [], tl []) \<in> (\<lambda>seq. (butlast seq, tl seq)) ` fst ` set d"
    by (rule imageI)
  then have "([], []) \<in> fst ` set (edges (build_graph d))"
    by (simp only: keys_edges_build_graph butlast.simps list.sel)
  then have a: "\<exists>w. (([], []), w) \<in> set (edges (build_graph d))" by auto
  from m have "butlast [] \<in> (\<Union>seq \<in> fst ` set d. {butlast seq, tl seq})" by blast
  then have "[] \<in> set (nodes (build_graph d))"
    by (simp only: nodes_build_graph butlast.simps)
  with a show ?thesis by simp
qed

lemma build_kmer_dict_records:
  assumes k0: "0 < k" and r: "read \<in> set reads"
    and s: "s \<in> set (map (\<lambda>j. take (nat k) (drop j read)) [0..<Suc (nat k + length read mod nat k)])"
  shows "\<exists>d c. build_kmer_dict reads k = Inr d \<and> map_of d s = Some c \<and> 1 \<le> c \<and> (s, c) \<in> set d"
proof -
  define e where "e = (\<lambda>r::string. map (\<lambda>j. take (nat k) (drop j r)) [0..<Suc (nat k + length r mod nat k)])"
  define al where "al = concat (map e reads)"
  have bd: "build_kmer_dict reads k = Inr (count_kmers al [])"
    unfolding al_def e_def build_kmer_dict_def by (rule count_reads_eq [OF k0])
  from s have "s \<in> set (e read)" unfolding e_def .
  with r have "s \<in> set al" unfolding al_def by auto
  then have "count_list al s \<noteq> 0" using count_list_0_iff [of al s] by blast
  then have mo: "map_of (count_kmers al []) s = Some (count_list al s)" and pos: "1 \<le> count_list al s"
    by (simp_all add: map_of_count_kmers)
  from mo have "(s, count_list al s) \<in> set (count_kmers al [])" by (rule map_of_SomeD)
  with bd mo pos show ?thesis by blast
qed

text \<open>
  Claim C10. For every k-mer size \<open>k \<ge> 1\<close> and every read of length \<open>L < 2k\<close>, \<open>cut_kmer\<close>
  yields at least one empty string: the slice \<open>read[i:i+k]\<close> at an index \<open>i \<ge> L\<close>. When the
  read is among the reads counted, \<open>build_kmer_dict\<close> then holds the empty string as a key
  with a count of at least 1, and \<open>build_graph\<close> turns that entry into a self-loop from the
  empty-string node to itself (its prefix and its suffix are both the empty string).
\<close>

theorem short_read_empty_kmer:
  "1 \<le> k \<Longrightarrow> int (length read) < 2 * k \<Longrightarrow> read \<in> set reads \<Longrightarrow>
     (\<exists>kmers i. cut_kmer read k = Inr kmers \<and> i < length kmers \<and> length read \<le> i
         \<and> kmers ! i = py_slice read (int i) (int i + k) \<and> kmers ! i = [])
   \<and> (\<exists>d c. build_kmer_dict reads k = Inr d \<and> map_of d [] = Some c \<and> 1 \<le> c
         \<and> (\<exists>w. ((py_slice [] 0 (-1), py_slice [] 1 (int (length ([]::string)))), w)
                  \<in> set (edges (build_graph d)))
         \<and> (\<exists>w. (([], []), w) \<in> set (edges (build_graph d)))
         \<and> [] \<in> set (nodes (build_graph d)))"
proof (intro conjI)
  assume k: "1 \<le> k" and l: "int (length read) < 2 * k" and r: "read \<in> set reads"
  from k have k0: "0 < k" by simp
  define K where "K = nat k"
  define n where "n = K + length read mod K"
  define ks where "ks = map (\<lambda>j. take K (drop j read)) [0..<Suc n]"
  have "0 < K" "length read < 2 * K" using k0 l unfolding K_def by linarith+
  then have le: "length read \<le> n" unfolding n_def by (rule short_read_over)
  have ck: "cut_kmer read k = Inr ks"
    unfolding ks_def n_def K_def by (rule cut_kmer_eq [OF k0])
  have len: "length read < length ks" using le unfolding ks_def by simp
  have nth: "ks ! length read = take K (drop (length read) read)"
    using le unfolding ks_def by (simp add: nth_map_upt del: upt_Suc)
  then have emp: "ks ! length read = []" by simp
  have "ks ! length read = py_slice read (int (length read)) (int (length read) + k)"
    using nth unfolding K_def by (simp add: py_slice_window [OF k0])
  with ck len emp
  show "\<exists>kmers i. cut_kmer read k = Inr kmers \<and> i < length kmers \<and> length read \<le> i
         \<and> kmers ! i = py_slice read (int i) (int i + k) \<and> kmers ! i = []"
    by blast
  from len emp have "[] \<in> set ks" by (metis nth_mem)
  then have "[] \<in> set (map (\<lambda>j. take (nat k) (drop j read))
                 [0..<Suc (nat k + length read mod nat k)])"
    unfolding ks_def n_def K_def .
  from build_kmer_dict_records [OF k0 r this]
  obtain d c where d: "build_kmer_dict reads k = Inr d" "map_of d [] = Some c" "1 \<le> c"
    "([], c) \<in> set d" by blast
  from build_graph_empty_kmer [OF d(4)]
  have g: "\<exists>w. (([], []), w) \<in> set (edges (build_graph d))" "[] \<in> set (nodes (build_graph d))"
    by simp_all
  have sl: "py_slice ([]::string) 0 (-1) = []" "py_slice ([]::string) 1 (int (length ([]::string))) = []"
    by (simp_all add: py_slice_def slice_bound_def)
  from g(1) have g': "\<exists>w. ((py_slice [] 0 (-1), py_slice [] 1 (int (length ([]::string)))), w)
                  \<in> set (edges (build_graph d))"
    unfolding sl .
  from d(1,2,3) g g'
  show "\<exists>d c. build_kmer_dict reads k = Inr d \<and> map_of d [] = Some c \<and> 1 \<le> c
         \<and> (\<exists>w. ((py_slice [] 0 (-1), py_slice [] 1 (int (length ([]::string)))), w)
                  \<in> set (edges (build_graph d)))
         \<and> (\<exists>w. (([], []), w) \<in> set (edges (build_graph d)))
         \<and> [] \<in> set (nodes (build_graph d))"
    by blast
qed

theorem short_read_empty_kmer_witness:
  "(1::int) \<le> 3 \<and> int (length ''AATCG'') < 2 * 3 \<and> ''AATCG'' \<in> set [''AATCG'']
   \<and> (\<exists>d c. build_kmer_dict [''AATCG''] 3 = Inr d \<and> map_of d [] = Some c
         \<and> (\<exists>w. (([], []), w) \<in> set (edges (build_graph d))))"
proof -
  have h1: "(1::int) \<le> 3" and h2: "int (length ''AATCG'') < 2 * 3"
    and h3: "''AATCG'' \<in> set [''AATCG'']" by simp_all
  from short_read_empty_kmer [OF h1 h2 h3]
  have "\<exists>d c. build_kmer_dict [''AATCG''] 3 = Inr d \<and> map_of d [] = Some c
         \<and> (\<exists>w. (([], []), w) \<in> set (edges (build_graph d)))"
    by blast
  with h1 h2 h3 show ?thesis by blast
qed

subsection \<open>Node removal\<close>

lemma nodes_remove_nodes_from:
  "nodes (remove_nodes_from ns g) = filter (\<lambda>m. m \<notin> set ns) (nodes g)"
  by (induction ns arbitrary: g) (auto simp: remove_node_def intro: filter_cong)

lemma edges_remove_nodes_from:
  "edges (remove_nodes_from ns g) =
     filter (\<lambda>e. fst (fst e) \<notin> set ns \<and> snd (fst e) \<notin> set ns) (edges g)"
  by (induction ns arbitrary: g) (auto simp: remove_node_def intro: filter_cong)

lemma py_slice_interior: "py_slice s 1 (-1) = butlast (tl s)"
proof (cases "length s < 2")
  case True
  then have "s = [] \<or> (\<exists>x. s = [x])" by (cases s) auto
  then show ?thesis by (auto simp: py_slice_def slice_bound_def)
next
  case False
  then have "nat (int (length s) - 2) = length s - 2" by linarith
  with False show ?thesis
    by (simp add: py_slice_def slice_bound_def Let_def butlast_conv_take drop_Suc max_def min_def
        numeral_2_eq_2)
qed

lemma nodes_remove_paths:
  "nodes (remove_paths g ps e s) =
     filter (\<lambda>m. m \<notin> (\<Union>p \<in> set ps. set (if e \<and> s then p else if e then butlast p
                                        else if s then tl p else butlast (tl p)))) (nodes g)"
  by (induction ps arbitrary: g)
     (auto simp: nodes_remove_nodes_from py_slice_butlast py_slice_tl py_slice_interior
           intro: filter_cong)

lemma edges_remove_paths:
  "edges (remove_paths g ps e s) =
     filter (\<lambda>x. fst (fst x) \<notin> (\<Union>p \<in> set ps. set (if e \<and> s then p else if e then butlast p
                                        else if s then tl p else butlast (tl p)))
                \<and> snd (fst x) \<notin> (\<Union>p \<in> set ps. set (if e \<and> s then p else if e then butlast p
                                        else if s then tl p else butlast (tl p)))) (edges g)"
  by (induction ps arbitrary: g)
     (auto simp: edges_remove_nodes_from py_slice_butlast py_slice_tl py_slice_interior
           intro: filter_cong)

text \<open>
  Claim C8, as amended. For every graph, every list of losing paths and every setting of
  the two flags, \<open>remove_paths\<close> removes, per losing path: every node of the path when both
  flags are set; every node but the last one (\<open>path[:-1]\<close>: the first node and the interior
  ones) when only \<open>delete_entry_node\<close> is set; every node but the first one (\<open>path[1:]\<close>) when
  only \<open>delete_sink_node\<close> is set; and otherwise the nodes at the interior positions
  (\<open>path[1:-1]\<close>). The nodes that remain are those of the graph that no losing path lists at
  a removed position, in their order, and the edges that remain are those with both ends
  remaining: removing a node removes the edges at it.
\<close>

theorem remove_paths_policy:
  "nodes (remove_paths graph path_list delete_entry_node delete_sink_node) =
     filter (\<lambda>n. n \<notin> (\<Union>path \<in> set path_list.
                 set (if delete_entry_node \<and> delete_sink_node then path
                      else if delete_entry_node then butlast path
                      else if delete_sink_node then tl path
                      else butlast (tl path)))) (nodes graph)
   \<and> edges (remove_paths graph path_list delete_entry_node delete_sink_node) =
     filter (\<lambda>e. fst (fst e) \<notin> (\<Union>path \<in> set path_list.
                 set (if delete_entry_node \<and> delete_sink_node then path
                      else if delete_entry_node then butlast path
                      else if delete_sink_node then tl path
                      else butlast (tl path)))
              \<and> snd (fst e) \<notin> (\<Union>path \<in> set path_list.
                 set (if delete_entry_node \<and> delete_sink_node then path
                      else if delete_entry_node then butlast path
                      else if delete_sink_node then tl path
                      else butlast (tl path)))) (edges graph)"
  using nodes_remove_paths [of graph path_list delete_entry_node delete_sink_node]
    edges_remove_paths [of graph path_list delete_entry_node delete_sink_node]
  by (rule conjI)

text \<open>
  With only \<open>delete_entry_node\<close> set, the losing path \<open>a, b, c\<close> loses \<open>a\<close> and the interior
  node \<open>b\<close>, not only its first node; the one-node path \<open>a\<close> loses nothing, not its first
  node. With no flag set, the endpoint \<open>a\<close> of the losing path \<open>a, b, c\<close> is removed when it
  is an interior node of another losing path.
\<close>

theorem remove_paths_entry_counterexample:
  "nodes (remove_paths \<lparr>nodes = [''a'', ''b'', ''c''], edges = [((''a'', ''b''), 1), ((''b'', ''c''), 1)]\<rparr>
            [[''a'', ''b'', ''c'']] True False) = [''c'']
   \<and> nodes (remove_paths \<lparr>nodes = [''a''], edges = []\<rparr> [[''a'']] True False) = [''a'']
   \<and> nodes (remove_paths
        \<lparr>nodes = [''a'', ''b'', ''c'', ''x'', ''y''],
         edges = [((''a'', ''b''), 1), ((''b'', ''c''), 1), ((''x'', ''a''), 1), ((''a'', ''y''), 1)]\<rparr>
        [[''a'', ''b'', ''c''], [''x'', ''a'', ''y'']] False False) = [''c'', ''x'', ''y'']"
  by code_simp

subsection \<open>The best-path selector\<close>

text \<open>
  Claim C1 (the code departs from it). Two candidates of equal length and equal average
  weight: both standard deviations are 0, so the index is drawn by
  \<open>randint(0, len(path_list))\<close>, from the closed range from 0 to 2. On a draw of 2, the
  number of candidates, \<open>path_list.pop(2)\<close> raises IndexError: no winner is removed from
  the candidate list and no path is passed to \<open>remove_paths\<close>.
\<close>

theorem select_best_path_tie_out_of_range:
  "select_best_path
     \<lparr>nodes = [''a'', ''b'', ''c'', ''d''],
      edges = [((''a'', ''b''), 2), ((''b'', ''d''), 2), ((''a'', ''c''), 2), ((''c'', ''d''), 2)]\<rparr>
     [[''a'', ''b'', ''d''], [''a'', ''c'', ''d'']] [3, 3] [2, 2] False False 2
   = Inl IndexError"
  by (simp add: select_best_path_def stdev_def randint_def pop_def Let_def)

text \<open>
  Claim C2 (the code departs from it). With one candidate both standard deviations count as
  0 and the index is drawn from \<open>{0, 1}\<close>: on a draw of 0 the candidate is popped, the loser
  list is empty and the graph is returned as it was; on a draw of 1 the \<open>pop\<close> raises
  IndexError.
\<close>

theorem select_best_path_single_candidate:
  "select_best_path graph [path] [len] [weight] delete_entry_node delete_sink_node r =
     (if r mod 2 = 0 then Inr (graph, []) else Inl IndexError)"
  by (simp add: select_best_path_def randint_def pop_def numeral_2_eq_2)

text \<open>
  Claim C9 (the code departs from it). For every graph and every list of ending nodes,
  \<open>solve_out_tips\<close> returns \<open>None\<close> and raises nothing: no "not implemented" condition
  reaches the caller.
\<close>

theorem solve_out_tips_returns_none:
  "solve_out_tips graph ending_nodes = Inr None"
  by (simp add: solve_out_tips_def)

subsection \<open>The average weight of a path\<close>

lemma wf_graph_empty: "wf_graph empty_graph"
  by (simp add: wf_graph_def empty_graph_def)

lemma wf_graph_keys:
  "wf_graph g \<longleftrightarrow>
     distinct (nodes g) \<and> distinct (map fst (edges g))
     \<and> (\<forall>k \<in> fst ` set (edges g). fst k \<in> set (nodes g) \<and> snd k \<in> set (nodes g))"
  by (auto simp: wf_graph_def list_all_iff)

lemma wf_graph_add_edge: "wf_graph g \<Longrightarrow> wf_graph (add_edge u v w g)"
  unfolding wf_graph_keys
  by (auto simp: add_edge_def add_node_def Let_def dom_update distinct_update)

lemma wf_graph_build_graph_loop: "wf_graph g \<Longrightarrow> wf_graph (build_graph_loop items g)"
  by (induction items g rule: build_graph_loop.induct) (simp_all add: wf_graph_add_edge)

lemma wf_graph_build_graph: "wf_graph (build_graph kmer_dict)"
  by (simp add: build_graph_def wf_graph_build_graph_loop wf_graph_empty)

lemma wf_graph_remove_paths: "wf_graph g \<Longrightarrow> wf_graph (remove_paths g ps e s)"
  by (auto simp: wf_graph_def nodes_remove_paths edges_remove_paths list_all_iff distinct_map_filter)








subsection \<open>Bubble resolution\<close>

lemma triangle_dag:
  "is_directed_acyclic_graph
     \<lparr>nodes = [''ACC'', ''CCC'', ''CCG''],
      edges = [((''ACC'', ''CCC''), 8), ((''CCC'', ''CCG''), 8), ((''ACC'', ''CCG''), 2)]\<rparr>"
  by code_simp

lemma triangle_ancestors:
  "ancestors
     \<lparr>nodes = [''ACC'', ''CCC'', ''CCG''],
      edges = [((''ACC'', ''CCC''), 8), ((''CCC'', ''CCG''), 8), ((''ACC'', ''CCG''), 2)]\<rparr>
     ''CCC'' = [''CCC'', ''ACC'']"
  "ancestors
     \<lparr>nodes = [''ACC'', ''CCC'', ''CCG''],
      edges = [((''ACC'', ''CCC''), 8), ((''CCC'', ''CCG''), 8), ((''ACC'', ''CCG''), 2)]\<rparr>
     ''ACC'' = [''ACC'']"
  by code_simp+

lemma triangle_lca:
  "lowest_common_ancestor
     \<lparr>nodes = [''ACC'', ''CCC'', ''CCG''],
      edges = [((''ACC'', ''CCC''), 8), ((''CCC'', ''CCG''), 8), ((''ACC'', ''CCG''), 2)]\<rparr>
     ''CCC'' ''ACC'' first = Inr (Some ''ACC'')"
  by (simp add: lowest_common_ancestor_def triangle_dag triangle_ancestors successors_def
      numeral_3_eq_3)

lemma triangle_scan:
  "scan_nodes
     \<lparr>nodes = [''ACC'', ''CCC'', ''CCG''],
      edges = [((''ACC'', ''CCC''), 8), ((''CCC'', ''CCG''), 8), ((''ACC'', ''CCG''), 2)]\<rparr>
     first [''ACC'', ''CCC'', ''CCG''] (False, None) = Inr (True, Some ''ACC'')"
  by (simp add: predecessors_def triangle_lca)

lemma triangle_paths:
  "all_simple_paths
     \<lparr>nodes = [''ACC'', ''CCC'', ''CCG''],
      edges = [((''ACC'', ''CCC''), 8), ((''CCC'', ''CCG''), 8), ((''ACC'', ''CCG''), 2)]\<rparr>
     ''ACC'' ''CCG'' = Inr [[''ACC'', ''CCC'', ''CCG''], [''ACC'', ''CCG'']]"
  by code_simp

lemma triangle_weights:
  "path_weights
     \<lparr>nodes = [''ACC'', ''CCC'', ''CCG''],
      edges = [((''ACC'', ''CCC''), 8), ((''CCC'', ''CCG''), 8), ((''ACC'', ''CCG''), 2)]\<rparr>
     [[''ACC'', ''CCC'', ''CCG''], [''ACC'', ''CCG'']] = Inr [6, 2]"
  by (simp add: path_average_weight_def subgraph_edges_def mean_def)

lemma triangle_select:
  "select_best_path
     \<lparr>nodes = [''ACC'', ''CCC'', ''CCG''],
      edges = [((''ACC'', ''CCC''), 8), ((''CCC'', ''CCG''), 8), ((''ACC'', ''CCG''), 2)]\<rparr>
     [[''ACC'', ''CCC'', ''CCG''], [''ACC'', ''CCG'']] [3, 2] [6, 2] False False r =
   Inr (\<lparr>nodes = [''ACC'', ''CCC'', ''CCG''],
         edges = [((''ACC'', ''CCC''), 8), ((''CCC'', ''CCG''), 8), ((''ACC'', ''CCG''), 2)]\<rparr>,
        [[''ACC'', ''CCG'']])"
  by (simp add: select_best_path_def stdev_def argmax_def pop_def py_slice_def slice_bound_def)

lemma triangle_solve_bubble:
  "solve_bubble
     \<lparr>nodes = [''ACC'', ''CCC'', ''CCG''],
      edges = [((''ACC'', ''CCC''), 8), ((''CCC'', ''CCG''), 8), ((''ACC'', ''CCG''), 2)]\<rparr>
     ''ACC'' ''CCG'' r =
   Inr \<lparr>nodes = [''ACC'', ''CCC'', ''CCG''],
        edges = [((''ACC'', ''CCC''), 8), ((''CCC'', ''CCG''), 8), ((''ACC'', ''CCG''), 2)]\<rparr>"
proof -
  have len: "map length [[''ACC'', ''CCC'', ''CCG''], [''ACC'', ''CCG'']] = [3, 2]" by simp
  show ?thesis
    by (simp only: solve_bubble_def triangle_paths triangle_weights len triangle_select
        sum.case prod.case)
qed

lemma triangle_recursion:
  "simplify_bubbles limit
     \<lparr>nodes = [''ACC'', ''CCC'', ''CCG''],
      edges = [((''ACC'', ''CCC''), 8), ((''CCC'', ''CCG''), 8), ((''ACC'', ''CCG''), 2)]\<rparr>
     first draws = Inl RecursionError"
proof (induction limit arbitrary: draws)
  case 0
  show ?case by simp
next
  case (Suc limit)
  have n: "nodes \<lparr>nodes = [''ACC'', ''CCC'', ''CCG''],
      edges = [((''ACC'', ''CCC''), 8), ((''CCC'', ''CCG''), 8), ((''ACC'', ''CCG''), 2)]\<rparr>
      = [''ACC'', ''CCC'', ''CCG'']" by simp
  have l: "last [''ACC'', ''CCC'', ''CCG''] = ''CCG''" by simp
  show ?case
    by (simp only: simplify_bubbles.simps n triangle_scan sum.case prod.case if_True
        option.case l triangle_solve_bubble Suc.IH)
qed

text \<open>
  Claim C4 (the code departs from it). The table \<open>ACCC: 8, CCCG: 8, ACCG: 2\<close> builds the
  graph with the edges \<open>ACC \<rightarrow> CCC\<close>, \<open>CCC \<rightarrow> CCG\<close> and \<open>ACC \<rightarrow> CCG\<close>. The scan
  records the ancestor \<open>ACC\<close> for the node \<open>CCG\<close>, between which there are two simple
  paths. \<open>solve_bubble\<close> keeps the path through \<open>CCC\<close>, of the higher average weight; the
  losing path \<open>ACC, CCG\<close> has no interior node, so nothing is removed: the graph comes back
  as it was, with both paths. \<open>simplify_bubbles\<close> then calls itself on the same graph, and
  for every bound on the depth of the recursion the call ends in RecursionError: no scan
  without a bubble is ever reached.
\<close>

theorem simplify_bubbles_triangle_no_return:
  "build_graph [(''ACCC'', 8), (''CCCG'', 8), (''ACCG'', 2)] =
     \<lparr>nodes = [''ACC'', ''CCC'', ''CCG''],
      edges = [((''ACC'', ''CCC''), 8), ((''CCC'', ''CCG''), 8), ((''ACC'', ''CCG''), 2)]\<rparr>
   \<and> scan_nodes
       \<lparr>nodes = [''ACC'', ''CCC'', ''CCG''],
        edges = [((''ACC'', ''CCC''), 8), ((''CCC'', ''CCG''), 8), ((''ACC'', ''CCG''), 2)]\<rparr>
       first [''ACC'', ''CCC'', ''CCG''] (False, None) = Inr (True, Some ''ACC'')
   \<and> all_simple_paths
       \<lparr>nodes = [''ACC'', ''CCC'', ''CCG''],
        edges = [((''ACC'', ''CCC''), 8), ((''CCC'', ''CCG''), 8), ((''ACC'', ''CCG''), 2)]\<rparr>
       ''ACC'' ''CCG'' = Inr [[''ACC'', ''CCC'', ''CCG''], [''ACC'', ''CCG'']]
   \<and> solve_bubble
       \<lparr>nodes = [''ACC'', ''CCC'', ''CCG''],
        edges = [((''ACC'', ''CCC''), 8), ((''CCC'', ''CCG''), 8), ((''ACC'', ''CCG''), 2)]\<rparr>
       ''ACC'' ''CCG'' r =
     Inr \<lparr>nodes = [''ACC'', ''CCC'', ''CCG''],
          edges = [((''ACC'', ''CCC''), 8), ((''CCC'', ''CCG''), 8), ((''ACC'', ''CCG''), 2)]\<rparr>
   \<and> simplify_bubbles limit
       \<lparr>nodes = [''ACC'', ''CCC'', ''CCG''],
        edges = [((''ACC'', ''CCC''), 8), ((''CCC'', ''CCG''), 8), ((''ACC'', ''CCG''), 2)]\<rparr>
       first draws = Inl RecursionError"
proof (intro conjI)
  show "build_graph [(''ACCC'', 8), (''CCCG'', 8), (''ACCG'', 2)] =
     \<lparr>nodes = [''ACC'', ''CCC'', ''CCG''],
      edges = [((''ACC'', ''CCC''), 8), ((''CCC'', ''CCG''), 8), ((''ACC'', ''CCG''), 2)]\<rparr>"
    by code_simp
qed (rule triangle_scan triangle_paths triangle_solve_bubble triangle_recursion)+

subsection \<open>Entry tips\<close>

lemma entry_tips_loop_returns_unchanged:
  "entry_tips_loop set_order graph ns starting_nodes r = Inr graph' \<Longrightarrow> graph' = graph"
  by (induction ns) (auto simp: Let_def split: if_splits sum.splits prod.splits)

lemma tips_paths:
  "all_simple_paths
     \<lparr>nodes = [''a'', ''c'', ''b''], edges = [((''a'', ''c''), 5), ((''b'', ''c''), 2)]\<rparr>
     ''a'' ''c'' = Inr [[''a'', ''c'']]"
  "all_simple_paths
     \<lparr>nodes = [''a'', ''c'', ''b''], edges = [((''a'', ''c''), 5), ((''b'', ''c''), 2)]\<rparr>
     ''b'' ''c'' = Inr [[''b'', ''c'']]"
  by code_simp+

lemma tips_weights:
  "path_average_weight
     \<lparr>nodes = [''a'', ''c'', ''b''], edges = [((''a'', ''c''), 5), ((''b'', ''c''), 2)]\<rparr>
     [''a'', ''c''] = Inr 5"
  "path_average_weight
     \<lparr>nodes = [''a'', ''c'', ''b''], edges = [((''a'', ''c''), 5), ((''b'', ''c''), 2)]\<rparr>
     [''b'', ''c''] = Inr 2"
  by (simp_all add: path_average_weight_def subgraph_edges_def mean_def)

lemma tips_select:
  "select_best_path
     \<lparr>nodes = [''a'', ''c'', ''b''], edges = [((''a'', ''c''), 5), ((''b'', ''c''), 2)]\<rparr>
     [[''a'', ''c''], [''b'', ''c'']] [2, 2] [5, 2] False False r =
   Inr (\<lparr>nodes = [''a'', ''c'', ''b''], edges = [((''a'', ''c''), 5), ((''b'', ''c''), 2)]\<rparr>,
        [[''b'', ''c'']])"
  "select_best_path
     \<lparr>nodes = [''a'', ''c'', ''b''], edges = [((''a'', ''c''), 5), ((''b'', ''c''), 2)]\<rparr>
     [[''b'', ''c''], [''a'', ''c'']] [2, 2] [2, 5] False False r =
   Inr (\<lparr>nodes = [''a'', ''c'', ''b''], edges = [((''a'', ''c''), 5), ((''b'', ''c''), 2)]\<rparr>,
        [[''b'', ''c'']])"
  by (simp_all add: select_best_path_def stdev_def argmax_def pop_def py_slice_def slice_bound_def)

lemma tips_loop:
  assumes "tips = [''a'', ''b''] \<or> tips = [''b'', ''a'']"
  shows "(case tip_paths
            \<lparr>nodes = [''a'', ''c'', ''b''], edges = [((''a'', ''c''), 5), ((''b'', ''c''), 2)]\<rparr>
            tips ''c'' of
        Inl e \<Rightarrow> Inl (e, \<lparr>nodes = [''a'', ''c'', ''b''], edges = [((''a'', ''c''), 5), ((''b'', ''c''), 2)]\<rparr>)
      | Inr paths \<Rightarrow>
     (case score_paths
            \<lparr>nodes = [''a'', ''c'', ''b''], edges = [((''a'', ''c''), 5), ((''b'', ''c''), 2)]\<rparr>
            paths of
        Inl e \<Rightarrow> Inl (e, \<lparr>nodes = [''a'', ''c'', ''b''], edges = [((''a'', ''c''), 5), ((''b'', ''c''), 2)]\<rparr>)
      | Inr (path_list, weight_avg_list) \<Rightarrow>
     (case select_best_path
             \<lparr>nodes = [''a'', ''c'', ''b''], edges = [((''a'', ''c''), 5), ((''b'', ''c''), 2)]\<rparr>
             path_list (map length path_list) weight_avg_list False False r of
        Inl e \<Rightarrow> Inl (e, \<lparr>nodes = [''a'', ''c'', ''b''], edges = [((''a'', ''c''), 5), ((''b'', ''c''), 2)]\<rparr>)
      | Inr (best_path, losers) \<Rightarrow> Inl (TypeError, best_path))))
     = (Inl (TypeError,
            \<lparr>nodes = [''a'', ''c'', ''b''], edges = [((''a'', ''c''), 5), ((''b'', ''c''), 2)]\<rparr>)
        :: (error \<times> graph) + graph)"
proof -
  have len: "map length [[''a'', ''c''], [''b'', ''c'']] = [2, 2]"
    "map length [[''b'', ''c''], [''a'', ''c'']] = [2, 2]" by simp_all
  from assms show ?thesis
  proof
    assume "tips = [''a'', ''b'']"
    then show ?thesis
      by (simp only: tip_paths.simps score_paths.simps tips_paths tips_weights len tips_select
          sum.case prod.case list.case)
  next
    assume "tips = [''b'', ''a'']"
    then show ?thesis
      by (simp only: tip_paths.simps score_paths.simps tips_paths tips_weights len tips_select
          sum.case prod.case list.case)
  qed
qed

text \<open>
  Claim C3 (the code departs from it). In the graph with the edges \<open>a \<rightarrow> c\<close> of weight 5
  and \<open>b \<rightarrow> c\<close> of weight 2, the starting nodes are \<open>a\<close> and \<open>b\<close>, and both are
  predecessors of \<open>c\<close>. In whichever order the set yields them, \<open>select_best_path\<close> is
  called with both flags \<open>False\<close> and returns the graph as it was, and \<open>paths.pop\<close> of
  that graph raises TypeError: \<open>solve_entry_tips\<close> does not return, and the source \<open>b\<close> of
  the losing tip is still in the graph.
\<close>

theorem solve_entry_tips_raises:
  assumes "set_order [] = []"
    and "set_order [''a'', ''b''] = [''a'', ''b''] \<or> set_order [''a'', ''b''] = [''b'', ''a'']"
  shows "get_starting_nodes
           \<lparr>nodes = [''a'', ''c'', ''b''], edges = [((''a'', ''c''), 5), ((''b'', ''c''), 2)]\<rparr>
         = [''a'', ''b'']
     \<and> solve_entry_tips set_order
           \<lparr>nodes = [''a'', ''c'', ''b''], edges = [((''a'', ''c''), 5), ((''b'', ''c''), 2)]\<rparr>
           [''a'', ''b''] r
         = Inl (TypeError,
                \<lparr>nodes = [''a'', ''c'', ''b''], edges = [((''a'', ''c''), 5), ((''b'', ''c''), 2)]\<rparr>)"
proof
  show "get_starting_nodes
           \<lparr>nodes = [''a'', ''c'', ''b''], edges = [((''a'', ''c''), 5), ((''b'', ''c''), 2)]\<rparr>
         = [''a'', ''b'']"
    by (simp add: get_starting_nodes_def predecessors_def)
  have n: "nodes \<lparr>nodes = [''a'', ''c'', ''b''],
                   edges = [((''a'', ''c''), 5), ((''b'', ''c''), 2)]\<rparr> = [''a'', ''c'', ''b'']"
    by simp
  have p: "predecessors
      \<lparr>nodes = [''a'', ''c'', ''b''], edges = [((''a'', ''c''), 5), ((''b'', ''c''), 2)]\<rparr> ''a'' = []"
    "predecessors
      \<lparr>nodes = [''a'', ''c'', ''b''], edges = [((''a'', ''c''), 5), ((''b'', ''c''), 2)]\<rparr> ''c''
      = [''a'', ''b'']"
    by (simp_all add: predecessors_def)
  have f: "filter (\<lambda>p. p \<in> set [''a'', ''b'']) [] = []"
    "filter (\<lambda>p. p \<in> set [''a'', ''b'']) [''a'', ''b''] = [''a'', ''b'']" by simp_all
  have l0: "\<not> 1 < length ([] :: node list)" by simp
  obtain tips where t: "set_order [''a'', ''b''] = tips"
    and d: "tips = [''a'', ''b''] \<or> tips = [''b'', ''a'']"
    using assms(2) by blast
  from d have lt: "1 < length tips" by auto
  show "solve_entry_tips set_order
           \<lparr>nodes = [''a'', ''c'', ''b''], edges = [((''a'', ''c''), 5), ((''b'', ''c''), 2)]\<rparr>
           [''a'', ''b''] r
         = Inl (TypeError,
                \<lparr>nodes = [''a'', ''c'', ''b''], edges = [((''a'', ''c''), 5), ((''b'', ''c''), 2)]\<rparr>)"
    by (simp only: solve_entry_tips_def n entry_tips_loop.simps Let_def p f assms(1) t l0 lt
        if_True if_False tips_loop [OF d])
qed

theorem solve_entry_tips_raises_witness:
  "(\<lambda>xs. xs) [] = ([] :: node list)
   \<and> ((\<lambda>xs. xs) [''a'', ''b''] = [''a'', ''b''] \<or> (\<lambda>xs. xs) [''a'', ''b''] = [''b'', ''a''])
   \<and> solve_entry_tips (\<lambda>xs. xs)
           \<lparr>nodes = [''a'', ''c'', ''b''], edges = [((''a'', ''c''), 5), ((''b'', ''c''), 2)]\<rparr>
           [''a'', ''b''] 0
         = Inl (TypeError,
                \<lparr>nodes = [''a'', ''c'', ''b''], edges = [((''a'', ''c''), 5), ((''b'', ''c''), 2)]\<rparr>)"
proof -
  have h1: "(\<lambda>xs. xs) [] = ([] :: node list)" by simp
  have h2: "(\<lambda>xs. xs) [''a'', ''b''] = [''a'', ''b'']
            \<or> (\<lambda>xs. xs) [''a'', ''b''] = [''b'', ''a'']" by simp
  from solve_entry_tips_raises [of "\<lambda>xs. xs", OF h1 h2, of 0]
  have "solve_entry_tips (\<lambda>xs. xs)
           \<lparr>nodes = [''a'', ''c'', ''b''], edges = [((''a'', ''c''), 5), ((''b'', ''c''), 2)]\<rparr>
           [''a'', ''b''] 0
         = Inl (TypeError,
                \<lparr>nodes = [''a'', ''c'', ''b''], edges = [((''a'', ''c''), 5), ((''b'', ''c''), 2)]\<rparr>)"
    by (rule conjunct2)
  with h1 h2 show ?thesis by blast
qed

end
